theory Spec2Isabelle
  imports Main "HOL-Library.Word"
begin

section \<open>The foreign write: \<^verbatim>\<open>src/bad_actor.c\<close>\<close>

text \<open>
  \<^verbatim>\<open>
  extern void capslock_revoke(uintptr_t base);

  void c_write_access(int* ptr) {
      printf("[C-Code] Received pointer %p. Performing unsafe write...\n", (void*)ptr);
      *ptr = 9999;
      capslock_revoke((uintptr_t)ptr);
  }
  \<close>
  The function is straight-line code with three effects: a line on standard output, a
  store through the pointer, and a call of an external function. The model threads a
  world through the three statements. The world holds the memory the C code can see and a
  log of the effects performed so far, in program order.

  A pointer is its address, a word of the platform's pointer width \<open>'a\<close>; an \<open>int\<close>
  is a 32-bit word. The memory maps the addresses at which a live \<open>int\<close> object stands
  to that object's contents. The function executes its store whatever the pointer is; a
  store through a pointer to no live \<open>int\<close> (a null pointer, a dangling one) is undefined
  behaviour in C: the model logs the store as executed, leaves the memory alone and stops
  there with the outcome \<open>Undefined\<close>.
\<close>

type_synonym 'a ptr = "'a word"
type_synonym 'a uintptr = "'a word"
type_synonym c_int = "32 word"
type_synonym 'a memory = "'a ptr \<rightharpoonup> c_int"

text \<open>The log and the world are generic in the type \<open>'p\<close> of addresses; the functions
  below use them at \<open>'a word\<close>.\<close>

datatype 'p event =
    Printf string 'p        \<comment> \<open>\<open>printf(fmt, (void*)p)\<close>\<close>
  | Store 'p c_int          \<comment> \<open>\<open>*p = v\<close> is executed\<close>
  | CallRevoke 'p           \<comment> \<open>\<open>capslock_revoke(base)\<close>\<close>

record 'p world =
  mem :: "'p \<rightharpoonup> c_int"
  trace :: "'p event list"

datatype 'p outcome =
    Returned "'p world"     \<comment> \<open>the function ran to its closing brace\<close>
  | Undefined "'p world"    \<comment> \<open>the store was undefined behaviour; the world it stopped in\<close>
  | NoReturn "'p world"     \<comment> \<open>the external function did not return; the world at the call\<close>

fun world_of :: "'p outcome \<Rightarrow> 'p world" where
  "world_of (Returned s) = s"
| "world_of (Undefined s) = s"
| "world_of (NoReturn s) = s"

definition fmt :: string where
  "fmt = ''[C-Code] Received pointer %p. Performing unsafe write...'' @ [CHR 0x0A]"

definition printf :: "string \<Rightarrow> 'a ptr \<Rightarrow> 'a ptr world \<Rightarrow> 'a ptr world" where
  "printf f p s = s\<lparr>trace := trace s @ [Printf f p]\<rparr>"

text \<open>\<open>*p = v\<close>: the store is executed whatever \<open>p\<close> is. Where \<open>p\<close> points to a live
  \<open>int\<close> it puts \<open>v\<close> there (\<open>Inr\<close>); anywhere else it is undefined behaviour (\<open>Inl\<close>).\<close>

definition store_int :: "'a ptr \<Rightarrow> c_int \<Rightarrow> 'a ptr world \<Rightarrow> 'a ptr world + 'a ptr world" where
  "store_int p v s =
     (let s' = s\<lparr>trace := trace s @ [Store p v]\<rparr>
      in case mem s p of
           None \<Rightarrow> Inl s'
         | Some _ \<Rightarrow> Inr (s'\<lparr>mem := (mem s)(p \<mapsto> v)\<rparr>))"

text \<open>\<open>(uintptr_t)p\<close>: the pointer's address as an unsigned integer of the same width.\<close>

definition ptr_to_uintptr :: "'a ptr \<Rightarrow> 'a uintptr" where
  "ptr_to_uintptr p = p"

text \<open>
  The body of \<open>capslock_revoke\<close> is not part of the C file (it is declared
  \<^verbatim>\<open>extern\<close>), so what it does to the memory is a parameter \<open>ext\<close> of the model:
  \<open>ext base m\<close> is the memory it leaves, or \<open>None\<close> when it does not return. The call
  itself is logged before control passes to it.
\<close>

definition call_capslock_revoke ::
  "('a uintptr \<Rightarrow> 'a memory \<Rightarrow> 'a memory option) \<Rightarrow> 'a uintptr \<Rightarrow> 'a ptr world \<Rightarrow> 'a ptr outcome" where
  "call_capslock_revoke ext b s =
     (let s' = s\<lparr>trace := trace s @ [CallRevoke b]\<rparr>
      in case ext b (mem s') of
           None \<Rightarrow> NoReturn s'
         | Some m \<Rightarrow> Returned (s'\<lparr>mem := m\<rparr>))"

definition c_write_access ::
  "('a uintptr \<Rightarrow> 'a memory \<Rightarrow> 'a memory option) \<Rightarrow> 'a ptr \<Rightarrow> 'a ptr world \<Rightarrow> 'a ptr outcome" where
  "c_write_access ext p s =
     (let s1 = printf fmt p s
      in case store_int p 9999 s1 of
           Inl s2 \<Rightarrow> Undefined s2
         | Inr s2 \<Rightarrow> call_capslock_revoke ext (ptr_to_uintptr p) s2)"

text \<open>The effects one call adds to the log: what stands in the final log after the log
  the call started with.\<close>

definition effects ::
  "('a uintptr \<Rightarrow> 'a memory \<Rightarrow> 'a memory option) \<Rightarrow> 'a ptr \<Rightarrow> 'a ptr world \<Rightarrow> 'a ptr event list" where
  "effects ext p s = drop (length (trace s)) (trace (world_of (c_write_access ext p s)))"



text \<open>External functions to observe a call with. \<open>ext_if P\<close> returns, leaving the memory as
  it finds it, exactly when the test \<open>P\<close> holds of the base and the memory it is called
  with. \<open>ext_count c\<close> counts its calls in the cell at address \<open>c\<close>.\<close>

definition ext_if ::
  "('a uintptr \<Rightarrow> 'a memory \<Rightarrow> bool) \<Rightarrow> 'a uintptr \<Rightarrow> 'a memory \<Rightarrow> 'a memory option" where
  "ext_if P b m = (if P b m then Some m else None)"


text \<open>A concrete world for the examples: one live \<open>int\<close> at address \<open>0x1000\<close> holding 7,
  nothing at address 0, and an empty log. The external function \<open>ext_id\<close> leaves the
  memory as it finds it.\<close>

definition demo_world :: "64 ptr world" where
  "demo_world = \<lparr>mem = [0x1000 \<mapsto> 7], trace = []\<rparr>"

definition ext_id :: "64 uintptr \<Rightarrow> 64 memory \<Rightarrow> 64 memory option" where
  "ext_id b m = Some m"

section \<open>The region tracker behind \<open>capslock_revoke\<close>\<close>

text \<open>
  The C file only declares and calls the runtime's revocation primitive; the tracker
  itself (region table, tag minting, access check, revocation engine) is not among the
  sources. Its model below follows the written design of the tracker, operation by
  operation. Addresses, sizes and generations are unbounded naturals (the design calls
  them opaque integer handles and gives no width).
\<close>

text \<open>Modelled from the spec: the data model of the tracker, whose declarations are
  missing from the sources. A Region has \<open>base\<close>, \<open>size\<close>, \<open>generation\<close>, \<open>permissions\<close>
  ("set of {read, write, execute}") and \<open>valid\<close>; a Capability Tag has \<open>region_id\<close>,
  \<open>generation_at_issue\<close> and \<open>offset\<close>; the errors are \<open>OverlapError\<close>,
  \<open>UnknownRegion\<close> and \<open>NotFound\<close>; an access check answers \<open>Ok\<close> or \<open>Denied\<close> with one
  of four reasons.\<close>

datatype operation = Read | Write | Execute

record region =
  base :: nat
  size_r :: nat
  generation :: nat
  permissions :: "operation set"
  valid :: bool

record tag =
  region_id :: nat
  generation_at_issue :: nat
  offset :: nat

datatype error = OverlapError | UnknownRegion | NotFound

datatype reason = Revoked | StaleGeneration | PermissionViolation | OutOfBounds

datatype verdict = Ok | Denied reason

text \<open>Modelled from the spec: the Region Table, whose code is missing. It maps region ids
  to region records; ids are handed out from a counter, so that a new region always has
  a fresh id ("reinstatement is modeled as a new region with a fresh id").\<close>

record table =
  regions :: "nat \<rightharpoonup> region"
  next_id :: nat

definition init_table :: table where
  "init_table = \<lparr>regions = Map.empty, next_id = 0\<rparr>"

text \<open>Every id in use was handed out by the counter. It holds of the empty table and every
  operation keeps it.\<close>

definition table_ok :: "table \<Rightarrow> bool" where
  "table_ok t = (\<forall>i. regions t i \<noteq> None \<longrightarrow> i < next_id t)"

text \<open>Modelled from the spec: the range tests on \<open>[base, base+size)\<close>, missing with the
  table. \<open>contains r a\<close>: the address lies in the region's range. \<open>intersects b s r\<close>:
  the half-open range \<open>[b, b+s)\<close> and the region's range share an address.\<close>

definition contains :: "region \<Rightarrow> nat \<Rightarrow> bool" where
  "contains r a = (base r \<le> a \<and> a < base r + size_r r)"

definition intersects :: "nat \<Rightarrow> nat \<Rightarrow> region \<Rightarrow> bool" where
  "intersects b s r = (max b (base r) < min (b + s) (base r + size_r r))"

text \<open>Modelled from the spec: the search for "any existing valid region" that \<open>register\<close>
  and \<open>lookup\<close> make, missing with them. \<open>valid_ids P t\<close> lists the ids of the valid
  regions that satisfy the test \<open>P\<close>, in the order the ids were handed out.\<close>

definition valid_ids :: "(region \<Rightarrow> bool) \<Rightarrow> table \<Rightarrow> nat list" where
  "valid_ids P t =
     filter (\<lambda>i. case regions t i of None \<Rightarrow> False | Some r \<Rightarrow> valid r \<and> P r) [0..<next_id t]"

text \<open>Modelled from the spec: \<open>register(base, size, permissions) -> region_id\<close>, missing from
  the sources: "fails with OverlapError if the new range intersects any existing valid
  region". A new region starts valid, at generation 0.\<close>

definition register ::
  "nat \<Rightarrow> nat \<Rightarrow> operation set \<Rightarrow> table \<Rightarrow> error + (nat \<times> table)" where
  "register b s perms t =
     (if valid_ids (intersects b s) t \<noteq> [] then Inl OverlapError
      else Inr (next_id t,
        t\<lparr>regions := (regions t)(next_id t \<mapsto>
             \<lparr>base = b, size_r = s, generation = 0, permissions = perms, valid = True\<rparr>),
          next_id := Suc (next_id t)\<rparr>))"

text \<open>Modelled from the spec: \<open>lookup(address) -> region_id | NotFound\<close>, missing from the
  sources: "finds the valid region, if any, whose [base, base+size) contains address".\<close>

definition lookup :: "nat \<Rightarrow> table \<Rightarrow> error + nat" where
  "lookup a t = (case valid_ids (\<lambda>r. contains r a) t of [] \<Rightarrow> Inl NotFound | i # _ \<Rightarrow> Inr i)"

text \<open>Modelled from the spec: \<open>deregister(region_id)\<close>, missing from the sources: "fails
  with UnknownRegion if absent; removes the entry entirely".\<close>

definition deregister :: "nat \<Rightarrow> table \<Rightarrow> error + table" where
  "deregister rid t =
     (case regions t rid of
        None \<Rightarrow> Inl UnknownRegion
      | Some _ \<Rightarrow> Inr (t\<lparr>regions := (regions t)(rid := None)\<rparr>))"

text \<open>Modelled from the spec: \<open>bump_generation(region_id)\<close>, missing from the sources:
  "fails with UnknownRegion if absent; increments generation".\<close>

definition bump_generation :: "nat \<Rightarrow> table \<Rightarrow> error + table" where
  "bump_generation rid t =
     (case regions t rid of
        None \<Rightarrow> Inl UnknownRegion
      | Some r \<Rightarrow> Inr (t\<lparr>regions := (regions t)(rid \<mapsto> r\<lparr>generation := Suc (generation r)\<rparr>)\<rparr>))"

text \<open>Modelled from the spec: \<open>mint(address) -> Tag | NotFound\<close>, missing from the sources:
  "looks up the owning region via Region Table, fails NotFound if the address is
  untracked; computes offset; snapshots current generation".\<close>

definition mint :: "nat \<Rightarrow> table \<Rightarrow> error + tag" where
  "mint a t =
     (case lookup a t of
        Inl e \<Rightarrow> Inl e
      | Inr rid \<Rightarrow>
          (case regions t rid of
             None \<Rightarrow> Inl NotFound
           | Some r \<Rightarrow>
               Inr \<lparr>region_id = rid, generation_at_issue = generation r, offset = a - base r\<rparr>))"

text \<open>Modelled from the spec: \<open>check(tag, operation) -> Ok | Denied(reason)\<close>, missing from
  the sources: "resolve tag.region_id in Region Table; if absent or valid == false ->
  Denied(Revoked); if region.generation != tag.generation_at_issue ->
  Denied(StaleGeneration); if operation not in region.permissions ->
  Denied(PermissionViolation); if tag.offset now exceeds current region.size ->
  Denied(OutOfBounds); otherwise Ok".\<close>

definition check :: "tag \<Rightarrow> operation \<Rightarrow> table \<Rightarrow> verdict" where
  "check tg opn t =
     (case regions t (region_id tg) of
        None \<Rightarrow> Denied Revoked
      | Some r \<Rightarrow>
          if \<not> valid r then Denied Revoked
          else if generation r \<noteq> generation_at_issue tg then Denied StaleGeneration
          else if opn \<notin> permissions r then Denied PermissionViolation
          else if size_r r < offset tg then Denied OutOfBounds
          else Ok)"

text \<open>Modelled from the spec: \<open>revoke(region_id)\<close>, missing from the sources: "fails
  UnknownRegion if absent; performs, as one atomic unit: set valid = false,
  bump_generation. Idempotent: revoking an already-invalid region is a no-op success".\<close>

definition revoke :: "nat \<Rightarrow> table \<Rightarrow> error + table" where
  "revoke rid t =
     (case regions t rid of
        None \<Rightarrow> Inl UnknownRegion
      | Some r \<Rightarrow>
          if \<not> valid r then Inr t
          else bump_generation rid (t\<lparr>regions := (regions t)(rid \<mapsto> r\<lparr>valid := False\<rparr>)\<rparr>))"

text \<open>Modelled from the spec: the tracker's interface as a state machine, missing from the
  sources. A \<open>call\<close> is one operation of the Region Table, the minting, the access check
  or the revocation engine with its arguments; \<open>step\<close> gives the answer and the table the
  call leaves ("all errors are returned as explicit result values"; a failed call leaves
  the table as it was); \<open>run\<close> makes a sequence of calls and \<open>generation_of\<close> reads a
  region's generation.\<close>

datatype call =
    Register nat nat "operation set"
  | Deregister nat
  | BumpGeneration nat
  | Lookup nat
  | Mint nat
  | Check tag operation
  | Revoke nat

datatype answer =
    RegionId nat
  | Done
  | Minted tag
  | Checked verdict
  | Failed error

fun step :: "call \<Rightarrow> table \<Rightarrow> answer \<times> table" where
  "step (Register b s perms) t =
     (case register b s perms t of Inl e \<Rightarrow> (Failed e, t) | Inr (rid, t') \<Rightarrow> (RegionId rid, t'))"
| "step (Deregister rid) t =
     (case deregister rid t of Inl e \<Rightarrow> (Failed e, t) | Inr t' \<Rightarrow> (Done, t'))"
| "step (BumpGeneration rid) t =
     (case bump_generation rid t of Inl e \<Rightarrow> (Failed e, t) | Inr t' \<Rightarrow> (Done, t'))"
| "step (Lookup a) t =
     (case lookup a t of Inl e \<Rightarrow> (Failed e, t) | Inr rid \<Rightarrow> (RegionId rid, t))"
| "step (Mint a) t =
     (case mint a t of Inl e \<Rightarrow> (Failed e, t) | Inr tg \<Rightarrow> (Minted tg, t))"
| "step (Check tg opn) t = (Checked (check tg opn t), t)"
| "step (Revoke rid) t =
     (case revoke rid t of Inl e \<Rightarrow> (Failed e, t) | Inr t' \<Rightarrow> (Done, t'))"

fun run :: "call list \<Rightarrow> table \<Rightarrow> table" where
  "run [] t = t"
| "run (c # cs) t = run cs (snd (step c t))"

definition generation_of :: "nat \<Rightarrow> table \<Rightarrow> nat option" where
  "generation_of rid t = map_option generation (regions t rid)"

text \<open>Tables for the examples: one region of 64 bytes at \<open>0x1000\<close> with id 0, first active,
  then revoked.\<close>

definition demo_active :: table where
  "demo_active =
     \<lparr>regions = [0 \<mapsto> \<lparr>base = 0x1000, size_r = 64, generation = 0,
                        permissions = {Read, Write}, valid = True\<rparr>],
      next_id = 1\<rparr>"

definition demo_revoked :: table where
  "demo_revoked =
     \<lparr>regions = [0 \<mapsto> \<lparr>base = 0x1000, size_r = 64, generation = 1,
                        permissions = {Read, Write}, valid = False\<rparr>],
      next_id = 1\<rparr>"

definition demo_tag :: tag where
  "demo_tag = \<lparr>region_id = 0, generation_at_issue = 0, offset = 16\<rparr>"

section \<open>Properties of the foreign write\<close>

subsection \<open>What one call does\<close>

text \<open>With a pointer to a live \<open>int\<close>: the line is printed, 9999 is put at \<open>p\<close>, and the
  external function is called once, with the base \<open>p\<close>, on the memory that holds the 9999;
  what it makes of that memory is the outcome.\<close>

lemma c_write_access_live:
  "mem s p = Some v0 \<Longrightarrow>
   c_write_access ext p s =
     (case ext p ((mem s)(p \<mapsto> 9999)) of
        None \<Rightarrow>
          NoReturn (s\<lparr>mem := (mem s)(p \<mapsto> 9999),
            trace := trace s @ [Printf fmt p, Store p 9999, CallRevoke p]\<rparr>)
      | Some m \<Rightarrow>
          Returned (s\<lparr>mem := m,
            trace := trace s @ [Printf fmt p, Store p 9999, CallRevoke p]\<rparr>))"
  by (simp add: c_write_access_def printf_def store_int_def call_capslock_revoke_def
      ptr_to_uintptr_def Let_def split: option.splits)

text \<open>With any other pointer: the line is printed, the store is executed and is undefined
  behaviour; the external function is not called, whatever it is.\<close>

lemma c_write_access_dead:
  "mem s p = None \<Longrightarrow>
   c_write_access ext p s = Undefined (s\<lparr>trace := trace s @ [Printf fmt p, Store p 9999]\<rparr>)"
  by (simp add: c_write_access_def printf_def store_int_def Let_def)

lemma effects_defined:
  assumes "mem s p = Some v0"
  shows "effects ext p s = [Printf fmt p, Store p 9999, CallRevoke p]"
  by (simp add: effects_def c_write_access_live [OF assms] split: option.splits)

lemma effects_undefined:
  "mem s p = None \<Longrightarrow> effects ext p s = [Printf fmt p, Store p 9999]"
  by (simp add: effects_def c_write_access_dead)

lemma effects_cases:
  "effects ext p s = [Printf fmt p, Store p 9999, CallRevoke p] \<or>
   effects ext p s = [Printf fmt p, Store p 9999]"
  by (cases "mem s p") (simp_all add: effects_defined effects_undefined)

lemma trace_c_write_access:
  "trace (world_of (c_write_access ext p s)) = trace s @ effects ext p s"
proof (cases "mem s p")
  case None
  then show ?thesis by (simp add: effects_def c_write_access_dead)
next
  case (Some v0)
  then show ?thesis
    by (simp add: effects_def c_write_access_live [OF Some] split: option.splits)
qed

lemma outcome_live:
  assumes "mem s p = Some v0"
  shows "(\<exists>w. c_write_access ext p s = Returned w) \<or> (\<exists>w. c_write_access ext p s = NoReturn w)"
  by (simp add: c_write_access_live [OF assms] split: option.splits)

lemma outcome_NoReturn:
  assumes "c_write_access ext p s = NoReturn w"
  shows "mem s p \<noteq> None \<and> ext (ptr_to_uintptr p) ((mem s)(p \<mapsto> 9999)) = None \<and>
         mem w = (mem s)(p \<mapsto> 9999)"
proof (cases "mem s p")
  case None
  with assms show ?thesis by (simp add: c_write_access_dead)
next
  case (Some v0)
  from c_write_access_live [OF Some, of ext] assms Some show ?thesis
    by (auto simp: ptr_to_uintptr_def split: option.splits)
qed

lemma outcome_Returned:
  assumes "c_write_access ext p s = Returned w"
  shows "mem s p \<noteq> None \<and> ext (ptr_to_uintptr p) ((mem s)(p \<mapsto> 9999)) = Some (mem w)"
proof (cases "mem s p")
  case None
  with assms show ?thesis by (simp add: c_write_access_dead)
next
  case (Some v0)
  from c_write_access_live [OF Some, of ext] assms Some show ?thesis
    by (auto simp: ptr_to_uintptr_def split: option.splits)
qed

subsection \<open>The store comes before the revocation\<close>

text \<open>
  Claim C1. For every pointer \<open>p\<close>, every world and every external function, the write
  through \<open>p\<close> is performed strictly before \<open>capslock_revoke\<close> is called. In the log:
  wherever a call of \<open>capslock_revoke\<close> stands among the effects of one call of
  \<open>c_write_access\<close>, the store of 9999 through \<open>p\<close> stands before it and not after it. In
  the memory: when \<open>p\<close> points to a live \<open>int\<close>, the external function is called on the
  memory in which \<open>p\<close> already holds 9999, and what it makes of that memory decides the
  outcome. When the store is undefined, the external function is not called: the outcome
  is the same for every external function.
\<close>

theorem write_before_revoke:
  "(\<forall>pre a post. effects ext p s = pre @ CallRevoke a # post \<longrightarrow>
      Store p 9999 \<in> set pre \<and> Store p 9999 \<notin> set post) \<and>
   (mem s p \<noteq> None \<longrightarrow>
      c_write_access ext p s =
        (case ext (ptr_to_uintptr p) ((mem s)(p \<mapsto> 9999)) of
           None \<Rightarrow>
             NoReturn (s\<lparr>mem := (mem s)(p \<mapsto> 9999),
               trace := trace s @ [Printf fmt p, Store p 9999, CallRevoke (ptr_to_uintptr p)]\<rparr>)
         | Some m \<Rightarrow>
             Returned (s\<lparr>mem := m,
               trace := trace s @ [Printf fmt p, Store p 9999, CallRevoke (ptr_to_uintptr p)]\<rparr>))) \<and>
   (mem s p = None \<longrightarrow>
      c_write_access ext p s =
        Undefined (s\<lparr>trace := trace s @ [Printf fmt p, Store p 9999]\<rparr>))"
proof (cases "mem s p")
  case None
  then show ?thesis
    by (simp add: effects_undefined c_write_access_dead Cons_eq_append_conv)
next
  case (Some v0)
  have e: "effects ext p s = [Printf fmt p, Store p 9999, CallRevoke p]"
    using Some by (rule effects_defined)
  have "Store p 9999 \<in> set pre \<and> Store p 9999 \<notin> set post"
    if "[Printf fmt p, Store p 9999, CallRevoke p] = pre @ CallRevoke a # post" for pre a post
    using that by (auto simp: Cons_eq_append_conv)
  then show ?thesis
    using Some e c_write_access_live [OF Some, of ext]
    unfolding ptr_to_uintptr_def by simp
qed

text \<open>On the example world the cell at \<open>0x1000\<close> holds 7 before the call. An external
  function that returns only if it finds 9999 at its base returns; one that returns only
  if it still finds the 7 there does not.\<close>

theorem write_before_revoke_witness:
  "mem demo_world 0x1000 \<noteq> None \<and>
   c_write_access (ext_if (\<lambda>b m. m b = Some 9999)) 0x1000 demo_world =
     Returned \<lparr>mem = [0x1000 \<mapsto> 9999],
       trace = [Printf fmt 0x1000, Store 0x1000 9999, CallRevoke 0x1000]\<rparr> \<and>
   c_write_access (ext_if (\<lambda>b m. m b = Some 7)) 0x1000 demo_world =
     NoReturn \<lparr>mem = [0x1000 \<mapsto> 9999],
       trace = [Printf fmt 0x1000, Store 0x1000 9999, CallRevoke 0x1000]\<rparr> \<and>
   effects ext_id 0x1000 demo_world =
     [Printf fmt 0x1000, Store 0x1000 9999] @ CallRevoke 0x1000 # [] \<and>
   Store 0x1000 9999 \<in> set [Printf fmt (0x1000 :: 64 word), Store 0x1000 9999]"
proof -
  have h: "mem demo_world 0x1000 \<noteq> None"
    by (simp add: demo_world_def)
  from write_before_revoke [of "ext_if (\<lambda>b m. m b = Some 9999)" "0x1000" demo_world] h
  have a: "c_write_access (ext_if (\<lambda>b m. m b = Some 9999)) 0x1000 demo_world =
     Returned \<lparr>mem = [0x1000 \<mapsto> 9999],
       trace = [Printf fmt 0x1000, Store 0x1000 9999, CallRevoke 0x1000]\<rparr>"
    by (simp add: ext_if_def ptr_to_uintptr_def demo_world_def)
  from write_before_revoke [of "ext_if (\<lambda>b m. m b = Some 7)" "0x1000" demo_world] h
  have b: "c_write_access (ext_if (\<lambda>b m. m b = Some 7)) 0x1000 demo_world =
     NoReturn \<lparr>mem = [0x1000 \<mapsto> 9999],
       trace = [Printf fmt 0x1000, Store 0x1000 9999, CallRevoke 0x1000]\<rparr>"
    by (simp add: ext_if_def ptr_to_uintptr_def demo_world_def)
  note t = write_before_revoke [of ext_id "0x1000" demo_world]
  from t h have "c_write_access ext_id 0x1000 demo_world =
     Returned \<lparr>mem = [0x1000 \<mapsto> 9999],
       trace = [Printf fmt 0x1000, Store 0x1000 9999, CallRevoke 0x1000]\<rparr>"
    by (simp add: ext_id_def ptr_to_uintptr_def demo_world_def)
  then have e: "effects ext_id 0x1000 demo_world =
      [Printf fmt 0x1000, Store 0x1000 9999] @ CallRevoke 0x1000 # []"
    by (simp add: effects_def demo_world_def)
  from t e have c: "Store 0x1000 9999 \<in> set [Printf fmt (0x1000 :: 64 word), Store 0x1000 9999]"
    by blast
  from h a b e c show ?thesis by blast
qed

subsection \<open>The revocation names the address written\<close>

text \<open>
  Claim C2. For every pointer \<open>p\<close>, the address that \<open>c_write_access p\<close> passes to
  \<open>capslock_revoke\<close> is \<open>(uintptr_t)p\<close>, numerically the address \<open>p\<close> it has just written
  through. In the log: every call of \<open>capslock_revoke\<close> among the effects has this
  argument, and the store among the effects is through the same address. In the call
  itself: whenever the function returns, the memory it returns with is what the external
  function made, called with base \<open>(uintptr_t)p\<close>, of the memory with 9999 at \<open>p\<close>;
  whenever the external function does not return, it is this call that did not; and with
  a pointer to a live \<open>int\<close> one of the two happens. So an external function that accepts
  only the base \<open>q\<close> returns exactly when \<open>q\<close> is \<open>(uintptr_t)p\<close>.
\<close>

theorem revoke_same_address:
  "(\<forall>a. CallRevoke a \<in> set (effects ext p s) \<longrightarrow>
      a = ptr_to_uintptr p \<and> unat a = unat p \<and> Store a 9999 \<in> set (effects ext p s)) \<and>
   (mem s p \<noteq> None \<longrightarrow> CallRevoke (ptr_to_uintptr p) \<in> set (effects ext p s)) \<and>
   (\<forall>w. c_write_access ext p s = Returned w \<longrightarrow>
      ext (ptr_to_uintptr p) ((mem s)(p \<mapsto> 9999)) = Some (mem w)) \<and>
   (\<forall>w. c_write_access ext p s = NoReturn w \<longrightarrow>
      ext (ptr_to_uintptr p) ((mem s)(p \<mapsto> 9999)) = None) \<and>
   (mem s p \<noteq> None \<longrightarrow>
      (\<exists>w. c_write_access ext p s = Returned w) \<or> (\<exists>w. c_write_access ext p s = NoReturn w)) \<and>
   (mem s p \<noteq> None \<longrightarrow>
      ((\<exists>w. c_write_access (ext_if (\<lambda>b m. b = q)) p s = Returned w) \<longleftrightarrow>
       q = ptr_to_uintptr p))"
proof -
  have log: "\<forall>a. CallRevoke a \<in> set (effects ext p s) \<longrightarrow>
      a = ptr_to_uintptr p \<and> unat a = unat p \<and> Store a 9999 \<in> set (effects ext p s)"
    using effects_cases [of ext p s] by (auto simp: ptr_to_uintptr_def)
  have made: "mem s p \<noteq> None \<longrightarrow> CallRevoke (ptr_to_uintptr p) \<in> set (effects ext p s)"
    using effects_defined [of s p _ ext] by (auto simp: ptr_to_uintptr_def)
  have ret: "\<forall>w. c_write_access ext p s = Returned w \<longrightarrow>
      ext (ptr_to_uintptr p) ((mem s)(p \<mapsto> 9999)) = Some (mem w)"
    using outcome_Returned [of ext p s] by blast
  have nor: "\<forall>w. c_write_access ext p s = NoReturn w \<longrightarrow>
      ext (ptr_to_uintptr p) ((mem s)(p \<mapsto> 9999)) = None"
    using outcome_NoReturn [of ext p s] by blast
  have one: "mem s p \<noteq> None \<longrightarrow>
      (\<exists>w. c_write_access ext p s = Returned w) \<or> (\<exists>w. c_write_access ext p s = NoReturn w)"
    using outcome_live [of s p _ ext] by auto
  have only: "mem s p \<noteq> None \<longrightarrow>
      ((\<exists>w. c_write_access (ext_if (\<lambda>b m. b = q)) p s = Returned w) \<longleftrightarrow>
       q = ptr_to_uintptr p)"
  proof
    assume "mem s p \<noteq> None"
    then obtain v0 where "mem s p = Some v0" by blast
    from c_write_access_live [OF this, of "ext_if (\<lambda>b m. b = q)"]
    show "(\<exists>w. c_write_access (ext_if (\<lambda>b m. b = q)) p s = Returned w) \<longleftrightarrow>
       q = ptr_to_uintptr p"
      by (auto simp: ext_if_def ptr_to_uintptr_def)
  qed
  show ?thesis by (intro conjI log made ret nor one only)
qed

text \<open>On the example world, with the pointer \<open>0x1000\<close>: an external function that accepts
  only the base \<open>0x1000\<close> returns, one that accepts only the base 0 does not.\<close>

theorem revoke_same_address_witness:
  "mem demo_world 0x1000 \<noteq> None \<and>
   CallRevoke 0x1000 \<in> set (effects ext_id 0x1000 demo_world) \<and>
   Store 0x1000 9999 \<in> set (effects ext_id 0x1000 demo_world) \<and>
   (\<exists>w. c_write_access (ext_if (\<lambda>b m. b = 0x1000)) 0x1000 demo_world = Returned w) \<and>
   \<not> (\<exists>w. c_write_access (ext_if (\<lambda>b m. b = 0)) 0x1000 demo_world = Returned w)"
proof -
  have h: "mem demo_world 0x1000 \<noteq> None"
    by (simp add: demo_world_def)
  note t = revoke_same_address [of ext_id "0x1000" demo_world]
  from t h have c: "CallRevoke 0x1000 \<in> set (effects ext_id 0x1000 demo_world)"
    by (simp add: ptr_to_uintptr_def)
  with t have st: "Store 0x1000 9999 \<in> set (effects ext_id 0x1000 demo_world)"
    by blast
  from revoke_same_address [of ext_id "0x1000" demo_world "0x1000"] h
  have a: "\<exists>w. c_write_access (ext_if (\<lambda>b m. b = 0x1000)) 0x1000 demo_world = Returned w"
    by (simp add: ptr_to_uintptr_def)
  from revoke_same_address [of ext_id "0x1000" demo_world 0] h
  have b: "\<not> (\<exists>w. c_write_access (ext_if (\<lambda>b m. b = 0)) 0x1000 demo_world = Returned w)"
    by (simp add: ptr_to_uintptr_def)
  from h c st a b show ?thesis by blast
qed

subsection \<open>The store is not guarded\<close>

text \<open>
  Claim C8. The write through the pointer is unconditional: no pointer is tested for and
  skipped. For every \<open>p\<close>, every world and every external function, the first two effects
  of a call are the printed line and the store of 9999 through \<open>p\<close>; nothing else comes
  before the store. With a pointer that is null or otherwise points to no live \<open>int\<close> the
  store is executed all the same and is undefined behaviour: the call ends there, it
  neither returns nor reaches the external function. With every other pointer the call
  goes on to the external function, and the memory it hands to the external function
  (and is left with if that function does not return) is the old memory with 9999 at
  \<open>p\<close>. No call returns, or reaches the external function, without the write done.
\<close>

theorem write_unconditional:
  "take 2 (effects ext p s) = [Printf fmt p, Store p 9999] \<and>
   (mem s p = None \<longrightarrow>
      c_write_access ext p s =
        Undefined (s\<lparr>trace := trace s @ [Printf fmt p, Store p 9999]\<rparr>)) \<and>
   (mem s p \<noteq> None \<longrightarrow>
      (\<exists>w. c_write_access ext p s = Returned w) \<or> (\<exists>w. c_write_access ext p s = NoReturn w)) \<and>
   (\<forall>w. c_write_access ext p s = NoReturn w \<longrightarrow>
      mem w = (mem s)(p \<mapsto> 9999) \<and> Store p 9999 \<in> set (trace w)) \<and>
   (\<forall>w. c_write_access ext p s = Returned w \<longrightarrow>
      ext (ptr_to_uintptr p) ((mem s)(p \<mapsto> 9999)) = Some (mem w) \<and>
      Store p 9999 \<in> set (trace w))"
proof -
  have first: "take 2 (effects ext p s) = [Printf fmt p, Store p 9999]"
    using effects_cases [of ext p s] by auto
  have dead: "mem s p = None \<longrightarrow>
      c_write_access ext p s =
        Undefined (s\<lparr>trace := trace s @ [Printf fmt p, Store p 9999]\<rparr>)"
    by (simp add: c_write_access_dead)
  have live: "mem s p \<noteq> None \<longrightarrow>
      (\<exists>w. c_write_access ext p s = Returned w) \<or> (\<exists>w. c_write_access ext p s = NoReturn w)"
    using outcome_live [of s p _ ext] by auto
  have logged: "Store p 9999 \<in> set (trace (world_of (c_write_access ext p s)))"
    using effects_cases [of ext p s] by (auto simp: trace_c_write_access)
  have nor: "\<forall>w. c_write_access ext p s = NoReturn w \<longrightarrow>
      mem w = (mem s)(p \<mapsto> 9999) \<and> Store p 9999 \<in> set (trace w)"
  proof (intro allI impI)
    fix w assume a: "c_write_access ext p s = NoReturn w"
    from outcome_NoReturn [OF a] logged a
    show "mem w = (mem s)(p \<mapsto> 9999) \<and> Store p 9999 \<in> set (trace w)" by simp
  qed
  have ret: "\<forall>w. c_write_access ext p s = Returned w \<longrightarrow>
      ext (ptr_to_uintptr p) ((mem s)(p \<mapsto> 9999)) = Some (mem w) \<and>
      Store p 9999 \<in> set (trace w)"
  proof (intro allI impI)
    fix w assume a: "c_write_access ext p s = Returned w"
    from outcome_Returned [OF a] logged a
    show "ext (ptr_to_uintptr p) ((mem s)(p \<mapsto> 9999)) = Some (mem w) \<and>
      Store p 9999 \<in> set (trace w)" by simp
  qed
  show ?thesis by (intro conjI first dead live nor ret)
qed

text \<open>On the example world: the null pointer is stored through and the call ends there,
  the memory as it was; the pointer \<open>0x1000\<close> is stored through and an external function
  that returns only if it finds 9999 at its base returns, with the 7 overwritten.\<close>

theorem write_unconditional_witness:
  "mem demo_world 0 = None \<and>
   c_write_access ext_id 0 demo_world =
     Undefined \<lparr>mem = [0x1000 \<mapsto> 7], trace = [Printf fmt 0, Store 0 9999]\<rparr> \<and>
   mem demo_world 0x1000 \<noteq> None \<and>
   take 2 (effects ext_id 0x1000 demo_world) = [Printf fmt 0x1000, Store 0x1000 9999] \<and>
   c_write_access (ext_if (\<lambda>b m. m b = Some 9999)) 0x1000 demo_world =
     Returned \<lparr>mem = [0x1000 \<mapsto> 9999],
       trace = [Printf fmt 0x1000, Store 0x1000 9999, CallRevoke 0x1000]\<rparr> \<and>
   ext_if (\<lambda>b m. m b = Some 9999) (ptr_to_uintptr 0x1000) ((mem demo_world)(0x1000 \<mapsto> 9999)) =
     Some [0x1000 \<mapsto> (9999 :: c_int)]"
proof -
  have h0: "mem demo_world 0 = None" and h1: "mem demo_world 0x1000 \<noteq> None"
    by (simp_all add: demo_world_def)
  from write_unconditional [of ext_id 0 demo_world] h0
  have a: "c_write_access ext_id 0 demo_world =
     Undefined \<lparr>mem = [0x1000 \<mapsto> 7], trace = [Printf fmt 0, Store 0 9999]\<rparr>"
    by (simp add: demo_world_def)
  from write_unconditional [of ext_id "0x1000" demo_world]
  have b: "take 2 (effects ext_id 0x1000 demo_world) = [Printf fmt 0x1000, Store 0x1000 9999]"
    by blast
  have r: "c_write_access (ext_if (\<lambda>b m. m b = Some 9999)) 0x1000 demo_world =
     Returned \<lparr>mem = [0x1000 \<mapsto> 9999],
       trace = [Printf fmt 0x1000, Store 0x1000 9999, CallRevoke 0x1000]\<rparr>"
    by (simp add: c_write_access_def printf_def store_int_def call_capslock_revoke_def
        ptr_to_uintptr_def ext_if_def demo_world_def)
  from write_unconditional [of "ext_if (\<lambda>b m. m b = Some 9999)" "0x1000" demo_world] r
  have c: "ext_if (\<lambda>b m. m b = Some 9999) (ptr_to_uintptr 0x1000)
      ((mem demo_world)(0x1000 \<mapsto> 9999)) = Some [0x1000 \<mapsto> (9999 :: c_int)]"
    by simp
  from h0 a h1 b r c show ?thesis by blast
qed

subsection \<open>The value stored\<close>

text \<open>
  Claim C9. The value \<open>c_write_access\<close> stores through its pointer is the constant 9999,
  whatever the pointer and whatever the memory held before: every store among the effects
  of a call is a store of 9999 through \<open>p\<close>, and the memory the external function is
  called on (and so the memory it is left with when that function does not return) is the
  old memory with 9999 at \<open>p\<close>.
\<close>

theorem stores_9999:
  "(\<forall>q v. Store q v \<in> set (effects ext p s) \<longrightarrow> q = p \<and> v = 9999) \<and>
   (\<forall>w. c_write_access ext p s = NoReturn w \<longrightarrow> mem w = (mem s)(p \<mapsto> 9999)) \<and>
   (\<forall>w. c_write_access ext p s = Returned w \<longrightarrow>
      ext (ptr_to_uintptr p) ((mem s)(p \<mapsto> 9999)) = Some (mem w))"
proof -
  have "\<forall>q v. Store q v \<in> set (effects ext p s) \<longrightarrow> q = p \<and> v = 9999"
    using effects_cases [of ext p s] by auto
  with outcome_NoReturn [of ext p s] outcome_Returned [of ext p s]
  show ?thesis by blast
qed

theorem stores_9999_witness:
  "c_write_access ext_id 0x1000 demo_world =
     Returned \<lparr>mem = [0x1000 \<mapsto> 9999],
       trace = [Printf fmt 0x1000, Store 0x1000 9999, CallRevoke 0x1000]\<rparr> \<and>
   ext_id (ptr_to_uintptr 0x1000) ((mem demo_world)(0x1000 \<mapsto> 9999)) =
     Some [0x1000 \<mapsto> 9999]"
proof -
  have r: "c_write_access ext_id 0x1000 demo_world =
     Returned \<lparr>mem = [0x1000 \<mapsto> 9999],
       trace = [Printf fmt 0x1000, Store 0x1000 9999, CallRevoke 0x1000]\<rparr>"
    by (simp add: c_write_access_def printf_def store_int_def call_capslock_revoke_def
        ptr_to_uintptr_def ext_id_def demo_world_def)
  from stores_9999 [of ext_id "0x1000" demo_world] r
  show ?thesis by simp
qed

subsection \<open>One revocation for one write\<close>




section \<open>Properties of the region tracker\<close>

subsection \<open>Ranges, ids and the table invariant\<close>

lemma intersects_iff:
  "intersects b s r \<longleftrightarrow> {b..<b + s} \<inter> {base r..<base r + size_r r} \<noteq> {}"
proof
  assume "intersects b s r"
  then have "max b (base r) \<in> {b..<b + s} \<inter> {base r..<base r + size_r r}"
    by (auto simp: intersects_def)
  then show "{b..<b + s} \<inter> {base r..<base r + size_r r} \<noteq> {}" by blast
next
  assume "{b..<b + s} \<inter> {base r..<base r + size_r r} \<noteq> {}"
  then obtain a where "a \<in> {b..<b + s}" "a \<in> {base r..<base r + size_r r}" by blast
  then show "intersects b s r" by (auto simp: intersects_def)
qed

lemma set_valid_ids:
  "i \<in> set (valid_ids P t) \<longleftrightarrow>
   i < next_id t \<and> (\<exists>r. regions t i = Some r \<and> valid r \<and> P r)"
  by (auto simp: valid_ids_def split: option.splits)

lemma valid_ids_empty_iff:
  "table_ok t \<Longrightarrow>
   valid_ids P t = [] \<longleftrightarrow> (\<forall>i r. regions t i = Some r \<longrightarrow> valid r \<longrightarrow> \<not> P r)"
proof -
  assume ok: "table_ok t"
  have "valid_ids P t = [] \<longleftrightarrow> (\<forall>i. i \<notin> set (valid_ids P t))"
    by (cases "valid_ids P t") auto
  also have "\<dots> \<longleftrightarrow> (\<forall>i r. regions t i = Some r \<longrightarrow> valid r \<longrightarrow> \<not> P r)"
    using ok unfolding set_valid_ids table_ok_def by (metis option.distinct(1))
  finally show ?thesis .
qed

lemma table_ok_init: "table_ok init_table"
  by (simp add: table_ok_def init_table_def)

lemma table_ok_step: "table_ok t \<Longrightarrow> table_ok (snd (step c t))"
  by (cases c)
    (auto simp: table_ok_def register_def deregister_def bump_generation_def revoke_def
      less_Suc_eq split: option.splits sum.splits if_splits)

lemma table_ok_run: "table_ok t \<Longrightarrow> table_ok (run cs t)"
  by (induction cs arbitrary: t) (simp_all add: table_ok_step)

lemma next_id_step: "next_id t \<le> next_id (snd (step c t))"
  by (cases c)
    (auto simp: register_def deregister_def bump_generation_def revoke_def
      split: option.splits sum.splits if_splits)

text \<open>What a successful \<open>lookup\<close> and a successful \<open>mint\<close> say: the tag names a valid
  region that contains the address, with that region's generation.\<close>

lemma lookup_Inr:
  assumes "lookup a t = Inr i"
  shows "\<exists>r. regions t i = Some r \<and> valid r \<and> contains r a"
proof -
  from assms have "i \<in> set (valid_ids (\<lambda>r. contains r a) t)"
    by (auto simp: lookup_def split: list.splits)
  then show ?thesis by (simp add: set_valid_ids)
qed

lemma mint_Inr:
  assumes "mint a t = Inr tg"
  shows "\<exists>r. regions t (region_id tg) = Some r \<and> valid r \<and> contains r a \<and>
             generation_at_issue tg = generation r \<and> offset tg = a - base r"
proof -
  from assms obtain i where l: "lookup a t = Inr i"
    by (auto simp: mint_def split: sum.splits)
  from lookup_Inr [OF l] obtain r where r: "regions t i = Some r" "valid r" "contains r a"
    by blast
  with assms l show ?thesis by (auto simp: mint_def)
qed

lemma table_ok_reachable: "table_ok (run cs init_table)"
  by (rule table_ok_run) (rule table_ok_init)

text \<open>The design's first scenario: register, mint, check, revoke, check again, mint again.\<close>

lemma scenario_1:
  "step (Register 0x1000 64 {Read, Write}) init_table = (RegionId 0, demo_active) \<and>
   step (Mint 0x1010) demo_active = (Minted demo_tag, demo_active) \<and>
   step (Check demo_tag Write) demo_active = (Checked Ok, demo_active) \<and>
   step (Revoke 0) demo_active = (Done, demo_revoked) \<and>
   step (Check demo_tag Write) demo_revoked = (Checked (Denied Revoked), demo_revoked) \<and>
   step (Mint 0x1010) demo_revoked = (Failed NotFound, demo_revoked)"
  by (simp add: register_def mint_def lookup_def check_def revoke_def bump_generation_def
      valid_ids_def contains_def init_table_def demo_active_def demo_revoked_def demo_tag_def)

text \<open>The design's second scenario: a write through a tag of a read-only region.\<close>

lemma scenario_2:
  "fst (step (Register 0x2000 32 {Read}) init_table) = RegionId 0 \<and>
   fst (step (Mint 0x2000) (snd (step (Register 0x2000 32 {Read}) init_table))) =
     Minted \<lparr>region_id = 0, generation_at_issue = 0, offset = 0\<rparr> \<and>
   check \<lparr>region_id = 0, generation_at_issue = 0, offset = 0\<rparr> Write
     (snd (step (Register 0x2000 32 {Read}) init_table)) = Denied PermissionViolation"
  by (simp add: register_def mint_def lookup_def check_def valid_ids_def contains_def
      init_table_def)

subsection \<open>Revocation is absolute\<close>

lemma dead_step:
  assumes "R < next_id t" and "\<forall>r. regions t R = Some r \<longrightarrow> \<not> valid r"
  shows "R < next_id (snd (step c t)) \<and>
         (\<forall>r. regions (snd (step c t)) R = Some r \<longrightarrow> \<not> valid r)"
  using assms
  by (cases c)
    (auto simp: register_def deregister_def bump_generation_def revoke_def
      split: option.splits sum.splits if_splits)

lemma dead_run:
  "R < next_id t \<Longrightarrow> \<forall>r. regions t R = Some r \<longrightarrow> \<not> valid r \<Longrightarrow>
   \<forall>r. regions (run cs t) R = Some r \<longrightarrow> \<not> valid r"
proof (induction cs arbitrary: t)
  case Nil
  then show ?case by simp
next
  case (Cons c cs)
  from dead_step [OF Cons.prems, of c] Cons.IH [of "snd (step c t)"]
  show ?case by simp
qed

lemma revoke_Inr:
  "revoke R t = Inr t' \<Longrightarrow>
   next_id t' = next_id t \<and> regions t R \<noteq> None \<and>
   (\<exists>r. regions t' R = Some r \<and> \<not> valid r)"
  by (auto simp: revoke_def bump_generation_def split: option.splits if_splits)

text \<open>
  Claim C3. For every region \<open>R\<close> of a table whose ids all came from the counter (as in
  every table reachable from the empty one) and every tag \<open>tg\<close> that names \<open>R\<close> (so every
  tag minted from \<open>R\<close>): once \<open>revoke R\<close> has returned, \<open>check tg opn\<close> answers
  \<open>Denied Revoked\<close> for every operation \<open>opn\<close>, in every table reached from there by any
  sequence \<open>cs\<close> of calls of the tracker. Registering again, at the same range or another,
  does not change that either: the new region has a fresh id.
\<close>

theorem revocation_absolute:
  assumes "table_ok t" and "revoke R t = Inr t'" and "region_id tg = R"
  shows "check tg opn (run cs t') = Denied Revoked"
proof -
  from revoke_Inr [OF assms(2)] assms(1)
  have "R < next_id t'" and "\<forall>r. regions t' R = Some r \<longrightarrow> \<not> valid r"
    by (auto simp: table_ok_def)
  then have "\<forall>r. regions (run cs t') R = Some r \<longrightarrow> \<not> valid r"
    by (rule dead_run)
  then show ?thesis
    using assms(3) by (simp add: check_def split: option.splits)
qed

theorem revocation_absolute_witness:
  "table_ok demo_active \<and> mint 0x1010 demo_active = Inr demo_tag \<and>
   check demo_tag Write demo_active = Ok \<and>
   revoke 0 demo_active = Inr demo_revoked \<and> region_id demo_tag = 0 \<and>
   check demo_tag Write
     (run [Register 0x1000 64 {Read, Write}, Mint 0x1010, BumpGeneration 0, Revoke 0,
           Deregister 0, Register 0x1000 64 {Read, Write}] demo_revoked) = Denied Revoked"
proof -
  have ok: "table_ok demo_active"
    by (simp add: table_ok_def demo_active_def)
  have rv: "revoke 0 demo_active = Inr demo_revoked"
    by (simp add: revoke_def bump_generation_def demo_active_def demo_revoked_def)
  have tg: "region_id demo_tag = 0"
    by (simp add: demo_tag_def)
  have m: "mint 0x1010 demo_active = Inr demo_tag"
    by (simp add: mint_def lookup_def valid_ids_def contains_def demo_active_def demo_tag_def)
  have c: "check demo_tag Write demo_active = Ok"
    by (simp add: check_def demo_active_def demo_tag_def)
  from revocation_absolute [OF ok rv tg] ok rv tg m c show ?thesis by blast
qed

subsection \<open>Generations never go down\<close>

lemma absent_step:
  assumes "R < next_id t" and "regions t R = None"
  shows "R < next_id (snd (step c t)) \<and> regions (snd (step c t)) R = None"
  using assms
  by (cases c)
    (auto simp: register_def deregister_def bump_generation_def revoke_def
      split: option.splits sum.splits if_splits)

lemma absent_run:
  "R < next_id t \<Longrightarrow> regions t R = None \<Longrightarrow> regions (run cs t) R = None"
proof (induction cs arbitrary: t)
  case Nil
  then show ?case by simp
next
  case (Cons c cs)
  from absent_step [OF Cons.prems, of c] Cons.IH [of "snd (step c t)"]
  show ?case by simp
qed

lemma generation_step:
  assumes "table_ok t" and "regions t R = Some r"
    and "regions (snd (step c t)) R = Some r'"
  shows "generation r \<le> generation r'"
proof -
  from assms(1,2) have "R < next_id t" by (simp add: table_ok_def)
  with assms(2,3) show ?thesis
    by (cases c)
      (auto simp: register_def deregister_def bump_generation_def revoke_def
        split: option.splits sum.splits if_splits)
qed

lemma generation_run:
  "table_ok t \<Longrightarrow> regions t R = Some r \<Longrightarrow> regions (run cs t) R = Some r' \<Longrightarrow>
   generation r \<le> generation r'"
proof (induction cs arbitrary: t r)
  case Nil
  then show ?case by simp
next
  case (Cons c cs)
  let ?t1 = "snd (step c t)"
  have ok1: "table_ok ?t1" using Cons.prems(1) by (rule table_ok_step)
  have lt: "R < next_id ?t1"
    using Cons.prems(1,2) next_id_step [of t c] by (auto simp: table_ok_def)
  show ?case
  proof (cases "regions ?t1 R")
    case None
    with lt have "regions (run cs ?t1) R = None" by (simp add: absent_run)
    with Cons.prems(3) show ?thesis by simp
  next
    case (Some r1)
    from generation_step [OF Cons.prems(1,2) Some] have "generation r \<le> generation r1" .
    moreover from Cons.IH [OF ok1 Some] Cons.prems(3) have "generation r1 \<le> generation r'"
      by simp
    ultimately show ?thesis by simp
  qed
qed

text \<open>
  Claim C4, as amended. For every region \<open>R\<close> of a table whose ids all came from the
  counter, over the region's lifetime its generation never decreases: every single call
  of the tracker, and so every sequence of calls, leaves \<open>R\<close> (while it is in the table)
  with a generation at least the one it had. Revoking a valid region succeeds and
  increments the generation by exactly one; revoking an already revoked region succeeds
  and changes nothing, the generation included.
\<close>

theorem generation_monotone:
  assumes "table_ok t" and "regions t R = Some r"
  shows "(\<forall>c r'. regions (snd (step c t)) R = Some r' \<longrightarrow> generation r \<le> generation r') \<and>
         (\<forall>cs r'. regions (run cs t) R = Some r' \<longrightarrow> generation r \<le> generation r') \<and>
         (valid r \<longrightarrow>
            (\<exists>t'. revoke R t = Inr t' \<and> generation_of R t' = Some (Suc (generation r)))) \<and>
         (\<not> valid r \<longrightarrow> revoke R t = Inr t)"
proof -
  have a: "\<forall>c r'. regions (snd (step c t)) R = Some r' \<longrightarrow> generation r \<le> generation r'"
    using generation_step [OF assms] by blast
  have b: "\<forall>cs r'. regions (run cs t) R = Some r' \<longrightarrow> generation r \<le> generation r'"
    using generation_run [OF assms] by blast
  have c: "valid r \<longrightarrow>
      (\<exists>t'. revoke R t = Inr t' \<and> generation_of R t' = Some (Suc (generation r)))"
    using assms(2) by (simp add: revoke_def bump_generation_def generation_of_def)
  have d: "\<not> valid r \<longrightarrow> revoke R t = Inr t"
    using assms(2) by (simp add: revoke_def)
  from a b c d show ?thesis by blast
qed

theorem generation_monotone_witness:
  "table_ok demo_active \<and>
   regions demo_active 0 =
     Some \<lparr>base = 0x1000, size_r = 64, generation = 0, permissions = {Read, Write},
           valid = True\<rparr> \<and>
   regions (run [Revoke 0, Revoke 0] demo_active) 0 =
     Some \<lparr>base = 0x1000, size_r = 64, generation = 1, permissions = {Read, Write},
           valid = False\<rparr> \<and>
   revoke 0 demo_active = Inr demo_revoked \<and>
   generation_of 0 demo_revoked = Some 1"
proof -
  let ?r = "\<lparr>base = 0x1000, size_r = 64, generation = 0, permissions = {Read, Write},
           valid = True\<rparr>"
  let ?r' = "\<lparr>base = 0x1000, size_r = 64, generation = 1, permissions = {Read, Write},
           valid = False\<rparr>"
  have ok: "table_ok demo_active"
    by (simp add: table_ok_def demo_active_def)
  have r: "regions demo_active 0 = Some ?r"
    by (simp add: demo_active_def)
  have r': "regions (run [Revoke 0, Revoke 0] demo_active) 0 = Some ?r'"
    by (simp add: revoke_def bump_generation_def demo_active_def)
  have rv: "revoke 0 demo_active = Inr demo_revoked"
    by (simp add: revoke_def bump_generation_def demo_active_def demo_revoked_def)
  note t = generation_monotone [OF ok r]
  from t r' have "generation ?r \<le> generation ?r'" by blast
  from t rv have g: "generation_of 0 demo_revoked = Some 1"
    by simp
  from ok r r' rv g show ?thesis by blast
qed

text \<open>
  The claim as first stated says that \<open>revoke\<close> increments the generation. It does not
  when the region is already revoked: in the table reached from the empty one by
  registering a region and revoking it, the region is at generation 1; a second
  \<open>revoke\<close> succeeds and the region is still at generation 1.
\<close>

theorem revoke_again_counterexample:
  "run [Register 0x1000 64 {Read, Write}, Revoke 0] init_table = demo_revoked \<and>
   generation_of 0 demo_revoked = Some 1 \<and>
   step (Revoke 0) demo_revoked = (Done, demo_revoked) \<and>
   generation_of 0 (snd (step (Revoke 0) demo_revoked)) = Some 1"
  by (simp add: register_def revoke_def bump_generation_def valid_ids_def generation_of_def
      init_table_def demo_revoked_def)

subsection \<open>Overlapping registrations\<close>

lemma register_fails_iff:
  assumes "table_ok t"
  shows "register b s p t = Inl OverlapError \<longleftrightarrow>
         (\<exists>i r. regions t i = Some r \<and> valid r \<and>
                {b..<b + s} \<inter> {base r..<base r + size_r r} \<noteq> {})"
  using valid_ids_empty_iff [OF assms, of "intersects b s"]
  by (auto simp: register_def intersects_iff)

lemma register_cases:
  "register b s p t = Inl OverlapError \<or>
   register b s p t =
     Inr (next_id t,
       t\<lparr>regions := (regions t)(next_id t \<mapsto>
            \<lparr>base = b, size_r = s, generation = 0, permissions = p, valid = True\<rparr>),
         next_id := Suc (next_id t)\<rparr>)"
  by (simp add: register_def)

lemma register_Inr:
  assumes "table_ok t" and "register b s p t = Inr (i, t')"
  shows "i = next_id t \<and> next_id t' = Suc (next_id t) \<and> table_ok t' \<and> regions t i = None \<and>
         regions t' = (regions t)(i \<mapsto>
            \<lparr>base = b, size_r = s, generation = 0, permissions = p, valid = True\<rparr>)"
proof -
  from assms(1) have "regions t (next_id t) = None"
    by (auto simp: table_ok_def)
  moreover from table_ok_step [OF assms(1), of "Register b s p"] assms(2)
  have "table_ok t'" by simp
  ultimately show ?thesis
    using assms(2) by (auto simp: register_def split: if_splits)
qed

text \<open>
  Claim C5. On a table whose ids all came from the counter, \<open>register b1 s1\<close> followed by
  \<open>register b2 s2\<close>: the first call fails with \<open>OverlapError\<close> exactly when the half-open
  range \<open>[b1, b1+s1)\<close> shares an address with the range of a valid region of the table;
  after a successful first call, the second fails with \<open>OverlapError\<close> exactly when
  \<open>[b2, b2+s2)\<close> shares an address with \<open>[b1, b1+s1)\<close> or with the range of a region that
  was valid before; and when the two ranges are disjoint from each other and from every
  valid region, both calls succeed, with the next two ids.
\<close>

theorem register_overlap:
  assumes "table_ok t"
  shows
    "(register b1 s1 p1 t = Inl OverlapError \<longleftrightarrow>
        (\<exists>i r. regions t i = Some r \<and> valid r \<and>
               {b1..<b1 + s1} \<inter> {base r..<base r + size_r r} \<noteq> {})) \<and>
     (\<forall>i1 t1. register b1 s1 p1 t = Inr (i1, t1) \<longrightarrow>
        (register b2 s2 p2 t1 = Inl OverlapError \<longleftrightarrow>
           {b2..<b2 + s2} \<inter> {b1..<b1 + s1} \<noteq> {} \<or>
           (\<exists>i r. regions t i = Some r \<and> valid r \<and>
                  {b2..<b2 + s2} \<inter> {base r..<base r + size_r r} \<noteq> {}))) \<and>
     ((\<forall>i r. regions t i = Some r \<longrightarrow> valid r \<longrightarrow>
          {b1..<b1 + s1} \<inter> {base r..<base r + size_r r} = {} \<and>
          {b2..<b2 + s2} \<inter> {base r..<base r + size_r r} = {}) \<and>
      {b2..<b2 + s2} \<inter> {b1..<b1 + s1} = {} \<longrightarrow>
        (\<exists>t1 t2. register b1 s1 p1 t = Inr (next_id t, t1) \<and>
                 register b2 s2 p2 t1 = Inr (Suc (next_id t), t2)))"
proof -
  note first = register_fails_iff [OF assms, of b1 s1 p1]
  have second: "register b2 s2 p2 t1 = Inl OverlapError \<longleftrightarrow>
           {b2..<b2 + s2} \<inter> {b1..<b1 + s1} \<noteq> {} \<or>
           (\<exists>i r. regions t i = Some r \<and> valid r \<and>
                  {b2..<b2 + s2} \<inter> {base r..<base r + size_r r} \<noteq> {})"
    if reg: "register b1 s1 p1 t = Inr (i1, t1)" for i1 t1
  proof -
    from register_Inr [OF assms reg]
    have ok1: "table_ok t1" and fresh: "regions t i1 = None"
      and r1: "regions t1 = (regions t)(i1 \<mapsto>
            \<lparr>base = b1, size_r = s1, generation = 0, permissions = p1, valid = True\<rparr>)"
      by blast+
    have "(\<exists>i r. regions t1 i = Some r \<and> valid r \<and>
              {b2..<b2 + s2} \<inter> {base r..<base r + size_r r} \<noteq> {}) \<longleftrightarrow>
          {b2..<b2 + s2} \<inter> {b1..<b1 + s1} \<noteq> {} \<or>
          (\<exists>i r. regions t i = Some r \<and> valid r \<and>
                  {b2..<b2 + s2} \<inter> {base r..<base r + size_r r} \<noteq> {})"
      (is "?L \<longleftrightarrow> ?A \<or> ?B")
    proof
      assume ?L
      then obtain i r where ir: "regions t1 i = Some r" "valid r"
        "{b2..<b2 + s2} \<inter> {base r..<base r + size_r r} \<noteq> {}" by blast
      show "?A \<or> ?B"
      proof (cases "i = i1")
        case True
        with ir r1 show ?thesis by auto
      next
        case False
        with ir r1 have "regions t i = Some r" by simp
        with ir show ?thesis by blast
      qed
    next
      assume "?A \<or> ?B"
      then show ?L
      proof
        assume ?A
        with r1 show ?L by (intro exI [of _ i1]) auto
      next
        assume ?B
        then obtain i r where ir: "regions t i = Some r" "valid r"
          "{b2..<b2 + s2} \<inter> {base r..<base r + size_r r} \<noteq> {}" by blast
        with fresh have "i \<noteq> i1" by auto
        with ir r1 have "regions t1 i = Some r" by simp
        with ir show ?L by blast
      qed
    qed
    with register_fails_iff [OF ok1, of b2 s2 p2] show ?thesis by simp
  qed
  have both: "\<exists>t1 t2. register b1 s1 p1 t = Inr (next_id t, t1) \<and>
                 register b2 s2 p2 t1 = Inr (Suc (next_id t), t2)"
    if free: "\<forall>i r. regions t i = Some r \<longrightarrow> valid r \<longrightarrow>
          {b1..<b1 + s1} \<inter> {base r..<base r + size_r r} = {} \<and>
          {b2..<b2 + s2} \<inter> {base r..<base r + size_r r} = {}"
      and apart: "{b2..<b2 + s2} \<inter> {b1..<b1 + s1} = {}"
  proof -
    from first free have "register b1 s1 p1 t \<noteq> Inl OverlapError" by blast
    with register_cases [of b1 s1 p1 t]
    obtain t1 where reg1: "register b1 s1 p1 t = Inr (next_id t, t1)" by blast
    from register_Inr [OF assms reg1] have n1: "next_id t1 = Suc (next_id t)" by simp
    from second [OF reg1] free apart have "register b2 s2 p2 t1 \<noteq> Inl OverlapError" by blast
    with register_cases [of b2 s2 p2 t1] n1
    obtain t2 where "register b2 s2 p2 t1 = Inr (Suc (next_id t), t2)" by auto
    with reg1 show ?thesis by blast
  qed
  from first second both show ?thesis by blast
qed


theorem register_overlap_witness:
  "table_ok init_table \<and>
   register 0x1000 64 {Read, Write} init_table = Inr (0, demo_active) \<and>
   {0x1020..<0x1020 + 64} \<inter> {0x1000..<0x1000 + (64::nat)} \<noteq> {} \<and>
   register 0x1020 64 {Read} demo_active = Inl OverlapError \<and>
   {0x2000..<0x2000 + 32} \<inter> {0x1000..<0x1000 + (64::nat)} = {} \<and>
   register 0x2000 32 {Read} demo_active \<noteq> Inl OverlapError"
proof -
  have ok: "table_ok init_table"
    by (simp add: table_ok_def init_table_def)
  have r1: "register 0x1000 64 {Read, Write} init_table = Inr (0, demo_active)"
    by (simp add: register_def valid_ids_def init_table_def demo_active_def)
  have "(0x1020::nat) \<in> {0x1020..<0x1020 + 64} \<inter> {0x1000..<0x1000 + (64::nat)}"
    by simp
  then have meet: "{0x1020..<0x1020 + 64} \<inter> {0x1000..<0x1000 + (64::nat)} \<noteq> {}"
    by blast
  have apart: "{0x2000..<0x2000 + 32} \<inter> {0x1000..<0x1000 + (64::nat)} = {}"
    by auto
  have none: "\<not> (\<exists>i r. regions init_table i = Some r \<and> valid r \<and>
      {0x2000..<0x2000 + 32} \<inter> {base r..<base r + size_r r} \<noteq> {})"
    by (simp add: init_table_def)
  from register_overlap [OF ok, of "0x1000" 64 "{Read, Write}" "0x1020" 64 "{Read}"] r1 meet
  have a: "register 0x1020 64 {Read} demo_active = Inl OverlapError"
    by blast
  from register_overlap [OF ok, of "0x1000" 64 "{Read, Write}" "0x2000" 32 "{Read}"] r1 apart none
  have b: "register 0x2000 32 {Read} demo_active \<noteq> Inl OverlapError"
    by blast
  from ok r1 meet a apart b show ?thesis by blast
qed

subsection \<open>Revoking twice\<close>

text \<open>
  Claim C6. \<open>revoke\<close> is idempotent: calling \<open>revoke R\<close> twice in a row leaves the same
  table as calling it once. For every region \<open>R\<close> of the table the first call succeeds,
  the second succeeds too and is a no-op, the region is revoked after both, and its
  generation is not lower than before the first call (and the same after the second call as
  after the first).
\<close>

theorem revoke_idempotent:
  "run [Revoke R, Revoke R] t = run [Revoke R] t \<and>
   (\<forall>r. regions t R = Some r \<longrightarrow>
      (\<exists>t' r'. revoke R t = Inr t' \<and> revoke R t' = Inr t' \<and>
         step (Revoke R) t' = (Done, t') \<and>
         regions t' R = Some r' \<and> \<not> valid r' \<and> generation r \<le> generation r'))"
  by (auto simp: revoke_def bump_generation_def split: option.splits)

theorem revoke_idempotent_witness:
  "regions demo_active 0 =
     Some \<lparr>base = 0x1000, size_r = 64, generation = 0, permissions = {Read, Write},
           valid = True\<rparr> \<and>
   revoke 0 demo_active = Inr demo_revoked \<and>
   revoke 0 demo_revoked = Inr demo_revoked \<and>
   run [Revoke 0, Revoke 0] demo_active = run [Revoke 0] demo_active"
proof -
  have r: "regions demo_active 0 =
     Some \<lparr>base = 0x1000, size_r = 64, generation = 0, permissions = {Read, Write},
           valid = True\<rparr>"
    by (simp add: demo_active_def)
  have rv: "revoke 0 demo_active = Inr demo_revoked"
    by (simp add: revoke_def bump_generation_def demo_active_def demo_revoked_def)
  note t = revoke_idempotent [of 0 demo_active]
  from t r rv have "revoke 0 demo_revoked = Inr demo_revoked" by auto
  with t r rv show ?thesis by blast
qed

end
